theory Spec2Isabelle
  imports Complex_Main
begin

section \<open>Strings and the path library\<close>

text \<open>
  Python strings are modelled as \<^typ>\<open>string\<close>.  \<open>str.lower\<close> is modelled on the ASCII
  letters; the only results of \<open>lower\<close> the program inspects are compared with ASCII
  literals that contain neither \<open>k\<close> nor \<open>i\<close>, the two ASCII letters that a non-ASCII
  code point can lower to, so the comparison is not affected by the other code points.
\<close>

definition lower_char :: "char \<Rightarrow> char" where
  "lower_char c =
     (case map_of (zip ''ABCDEFGHIJKLMNOPQRSTUVWXYZ'' ''abcdefghijklmnopqrstuvwxyz'') c of
        Some d \<Rightarrow> d
      | None \<Rightarrow> c)"

definition lower :: "string \<Rightarrow> string" where
  "lower s = map lower_char s"

text \<open>\<open>str.split('/')\<close>: the fields between separators, empty fields kept.\<close>

fun split_sep :: "string \<Rightarrow> string list" where
  "split_sep [] = [[]]"
| "split_sep (c # cs) =
     (if c = CHR ''/'' then [] # split_sep cs
      else (c # hd (split_sep cs)) # tl (split_sep cs))"

text \<open>\<open>'/'.join(parts)\<close>.\<close>

fun join_sep :: "string list \<Rightarrow> string" where
  "join_sep [] = []"
| "join_sep [p] = p"
| "join_sep (p # q # ps) = p @ CHR ''/'' # join_sep (q # ps)"

text \<open>\<open>str.rfind('.')\<close>: the index of the last dot, \<open>-1\<close> when there is none.\<close>

fun rfind_dot :: "string \<Rightarrow> int" where
  "rfind_dot [] = -1"
| "rfind_dot (c # cs) =
     (let r = rfind_dot cs in
      if r \<noteq> -1 then r + 1 else if c = CHR ''.'' then 0 else -1)"

text \<open>
  A pure POSIX path of \<open>pathlib\<close> (Python 3.8 to 3.11, the versions the package declares):
  the root (\<open>''\<close>, \<open>'/'\<close> or \<open>'//'\<close>) and the components after it.
\<close>

record ppath =
  proot :: string
  pparts :: "string list"

text \<open>\<open>_PosixFlavour.splitroot\<close> followed by \<open>parse_parts\<close> on one string.\<close>

definition splitroot :: "string \<Rightarrow> string \<times> string" where
  "splitroot part =
     (if part \<noteq> [] \<and> hd part = CHR ''/'' then
        (let stripped_part = dropWhile (\<lambda>c. c = CHR ''/'') part in
         if length part - length stripped_part = 2 then (''//'', stripped_part)
         else (''/'', stripped_part))
      else ([], part))"

definition Path :: "string \<Rightarrow> ppath" where
  "Path s =
     (let (rt, rel) = splitroot s in
      \<lparr>proot = rt, pparts = filter (\<lambda>x. x \<noteq> [] \<and> x \<noteq> ''.'') (split_sep rel)\<rparr>)"

text \<open>\<open>str(path)\<close>.\<close>

definition str_path :: "ppath \<Rightarrow> string" where
  "str_path p =
     (let s = proot p @ join_sep (pparts p) in if s = [] then ''.'' else s)"

definition name_of :: "ppath \<Rightarrow> string" where
  "name_of p = (if pparts p = [] then [] else last (pparts p))"

definition parent :: "ppath \<Rightarrow> ppath" where
  "parent p = p\<lparr>pparts := butlast (pparts p)\<rparr>"

definition suffix :: "ppath \<Rightarrow> string" where
  "suffix p =
     (let name = name_of p; i = rfind_dot name in
      if 0 < i \<and> i < int (length name) - 1 then drop (nat i) name else [])"

definition stem :: "ppath \<Rightarrow> string" where
  "stem p =
     (let name = name_of p; i = rfind_dot name in
      if 0 < i \<and> i < int (length name) - 1 then take (nat i) name else name)"

text \<open>\<open>path / other\<close> for a string operand (\<open>join_parsed_parts\<close> without drives).\<close>

definition truediv :: "ppath \<Rightarrow> string \<Rightarrow> ppath" where
  "truediv p s =
     (let q = Path s in
      if proot q \<noteq> [] then q else \<lparr>proot = proot p, pparts = pparts p @ pparts q\<rparr>)"

section \<open>The task descriptor\<close>

datatype NoiseReductionLevel = LIGHT | MEDIUM | STRONG

datatype SpeechEnhancementLevel = SE_LIGHT | SE_MEDIUM | SE_STRONG

datatype BackgroundNoiseLevel = MINIMAL | MODERATE | AGGRESSIVE

record AudioTask =
  input_path :: string
  name :: string
  noise_reduction_level :: NoiseReductionLevel
  enable_speech_enhancement :: bool
  speech_enhancement_level :: SpeechEnhancementLevel
  voice_clarity_boost :: bool
  background_noise_level :: BackgroundNoiseLevel

text \<open>\<open>__post_init__\<close>: an empty name is replaced by the stem of the input path.\<close>

definition post_init :: "AudioTask \<Rightarrow> AudioTask" where
  "post_init t = (if name t = [] then t\<lparr>name := stem (Path (input_path t))\<rparr> else t)"

definition output_path :: "AudioTask \<Rightarrow> string" where
  "output_path t =
     (let ip = Path (input_path t) in
      str_path (truediv (parent ip) (stem ip @ ''_cleaned'' @ suffix ip)))"

definition format_map :: "(string \<times> string) list" where
  "format_map =
     [(''.wav'', ''wav''), (''.mp3'', ''mp3''), (''.m4a'', ''m4a''),
      (''.aac'', ''aac''), (''.ogg'', ''ogg''), (''.flac'', ''flac'')]"

definition output_format :: "AudioTask \<Rightarrow> string" where
  "output_format t =
     (let ext = lower (suffix (Path (input_path t))) in
      case map_of format_map ext of Some f \<Rightarrow> f | None \<Rightarrow> ''wav'')"

text \<open>The dataclass constructor (defaults filled in by the caller), then \<open>__post_init__\<close>.\<close>

definition AudioTask_init ::
  "string \<Rightarrow> string \<Rightarrow> NoiseReductionLevel \<Rightarrow> bool \<Rightarrow> SpeechEnhancementLevel \<Rightarrow> bool \<Rightarrow>
   BackgroundNoiseLevel \<Rightarrow> AudioTask" where
  "AudioTask_init ip nm nrl ese sel vcb bnl =
     post_init \<lparr>input_path = ip, name = nm, noise_reduction_level = nrl,
       enable_speech_enhancement = ese, speech_enhancement_level = sel,
       voice_clarity_boost = vcb, background_noise_level = bnl\<rparr>"

text \<open>\<open>AudioTask(input_path=ip)\<close> with every default of the dataclass.\<close>

definition default_task :: "string \<Rightarrow> AudioTask" where
  "default_task ip = AudioTask_init ip [] MEDIUM True SE_MEDIUM True MODERATE"

text \<open>A file name that ends in a dot, such as \<open>a.\<close> or \<open>..\<close>.\<close>

definition ends_with_dot :: "string \<Rightarrow> bool" where
  "ends_with_dot n = (n \<noteq> [] \<and> last n = CHR ''.'')"

section \<open>The audio processor\<close>

text \<open>
  The signal loaded by \<open>librosa.load\<close> (mono, so one-dimensional) is a list of samples.
  No arithmetic is done on samples by the program itself; the numeric kernels are the
  external libraries, which appear as the fields of an environment.  An exception is a
  value; every exception of the model is an instance of Python's \<open>Exception\<close>.
\<close>

type_synonym signal = "real list"

type_synonym bytes = string

type_synonym filesystem = "string \<rightharpoonup> bytes"

datatype exn = KeyError string | Exception string

text \<open>The keyword arguments of one call of \<open>nr.reduce_noise\<close>.\<close>

record nr_call =
  nr_y :: signal
  nr_sr :: int
  y_noise :: signal
  prop_decrease :: real
  stationary :: bool
  n_std_thresh_stationary :: real

text \<open>
  The external collaborators: \<open>librosa.load\<close>, \<open>nr.reduce_noise\<close>, \<open>sf.write\<close> to a path,
  \<open>sf.write\<close> to an in-memory buffer with \<open>format='WAV'\<close>, \<open>AudioSegment.from_wav\<close> and
  \<open>AudioSegment.export\<close>.  A writer returns the exception it raised, if any, and the
  file system it left behind.
\<close>

record env =
  librosa_load :: "string \<Rightarrow> exn + (signal \<times> int)"
  reduce_noise :: "nr_call \<Rightarrow> exn + signal"
  sf_write :: "string \<Rightarrow> signal \<Rightarrow> int \<Rightarrow> filesystem \<Rightarrow> exn option \<times> filesystem"
  sf_write_buffer :: "signal \<Rightarrow> int \<Rightarrow> exn + bytes"
  from_wav :: "bytes \<Rightarrow> exn + bytes"
  export :: "bytes \<Rightarrow> string \<Rightarrow> string \<Rightarrow> filesystem \<Rightarrow> exn option \<times> filesystem"

text \<open>The slice \<open>y[:k]\<close>: a negative \<open>k\<close> counts from the end, and no index is out of range.\<close>

definition slice_to :: "'a list \<Rightarrow> int \<Rightarrow> 'a list" where
  "slice_to y k = (if 0 \<le> k then take (nat k) y else take (length y - nat (- k)) y)"

definition reduction_strength_table :: "(NoiseReductionLevel \<times> real) list" where
  "reduction_strength_table = [(LIGHT, 0.5), (MEDIUM, 0.7), (STRONG, 0.9)]"

text \<open>What \<open>_apply_noise_reduction\<close> computes before it calls the library.\<close>

definition noise_reduction_call :: "signal \<Rightarrow> int \<Rightarrow> NoiseReductionLevel \<Rightarrow> exn + nr_call" where
  "noise_reduction_call y sr level =
     (case map_of reduction_strength_table level of
        None \<Rightarrow> Inl (KeyError ''level'')
      | Some reduction_strength \<Rightarrow>
          (let noise_clip = slice_to y sr in
           Inr \<lparr>nr_y = y, nr_sr = sr, y_noise = noise_clip,
                prop_decrease = reduction_strength, stationary = True,
                n_std_thresh_stationary = 1.5\<rparr>))"

definition apply_noise_reduction ::
  "env \<Rightarrow> signal \<Rightarrow> int \<Rightarrow> NoiseReductionLevel \<Rightarrow> exn + signal" where
  "apply_noise_reduction e y sr level =
     (case noise_reduction_call y sr level of
        Inl ex \<Rightarrow> Inl ex
      | Inr c \<Rightarrow> reduce_noise e c)"

definition enhance_speech :: "signal \<Rightarrow> int \<Rightarrow> exn + signal" where
  "enhance_speech y sr = Inr y"

text \<open>The two branches of the save stage of \<open>process_audio\<close>.\<close>

datatype encode_route = Transcode_from_wav_buffer | Direct_write

definition encode_route_of :: "AudioTask \<Rightarrow> encode_route" where
  "encode_route_of task =
     (if lower (output_format task) = ''mp3'' then Transcode_from_wav_buffer else Direct_write)"

definition save_audio ::
  "env \<Rightarrow> AudioTask \<Rightarrow> signal \<Rightarrow> int \<Rightarrow> filesystem \<Rightarrow> exn option \<times> filesystem" where
  "save_audio e task y_clean sr fs =
     (case encode_route_of task of
        Transcode_from_wav_buffer \<Rightarrow>
          (case sf_write_buffer e y_clean sr of
             Inl ex \<Rightarrow> (Some ex, fs)
           | Inr wav_buffer \<Rightarrow>
               (case from_wav e wav_buffer of
                  Inl ex \<Rightarrow> (Some ex, fs)
                | Inr audio_segment \<Rightarrow> export e audio_segment (output_path task) ''mp3'' fs))
      | Direct_write \<Rightarrow> sf_write e (output_path task) y_clean sr fs)"

text \<open>\<open>if progress_callback: progress_callback(p)\<close>; the callback records the value.\<close>

definition report :: "bool \<Rightarrow> int \<Rightarrow> int list \<Rightarrow> int list" where
  "report cb p tr = (if cb then tr @ [p] else tr)"

text \<open>
  The body of the \<open>try\<close> block of \<open>process_audio\<close>: the exception that left it (or none),
  the progress values reported so far and the file system.
\<close>

definition process_audio_body ::
  "env \<Rightarrow> AudioTask \<Rightarrow> bool \<Rightarrow> filesystem \<Rightarrow> (exn + unit) \<times> int list \<times> filesystem" where
  "process_audio_body e task cb fs =
     (let tr1 = report cb 10 [] in
      case librosa_load e (input_path task) of
        Inl ex \<Rightarrow> (Inl ex, tr1, fs)
      | Inr (y, sr) \<Rightarrow>
          (let tr2 = report cb 30 tr1 in
           case apply_noise_reduction e y sr (noise_reduction_level task) of
             Inl ex \<Rightarrow> (Inl ex, tr2, fs)
           | Inr y_clean \<Rightarrow>
               (let tr3 = (if enable_speech_enhancement task then report cb 60 tr2 else tr2) in
                case (if enable_speech_enhancement task then enhance_speech y_clean sr
                      else Inr y_clean) of
                  Inl ex \<Rightarrow> (Inl ex, tr3, fs)
                | Inr y_out \<Rightarrow>
                    (let tr4 = report cb 80 tr3 in
                     case save_audio e task y_out sr fs of
                       (Some ex, fs') \<Rightarrow> (Inl ex, tr4, fs')
                     | (None, fs') \<Rightarrow> (Inr (), report cb 100 tr4, fs')))))"

text \<open>\<open>process_audio\<close>: the outer \<open>except Exception\<close> turns an exception into \<open>False\<close>.\<close>

definition process_audio ::
  "env \<Rightarrow> AudioTask \<Rightarrow> bool \<Rightarrow> filesystem \<Rightarrow> bool \<times> int list \<times> filesystem" where
  "process_audio e task cb fs =
     (case process_audio_body e task cb fs of
        (Inl ex, tr, fs') \<Rightarrow> (False, tr, fs')
      | (Inr u, tr, fs') \<Rightarrow> (True, tr, fs'))"

section \<open>The processing thread\<close>

datatype event = progress_updated string int | task_completed string bool string

record ProcessingThread =
  task :: AudioTask
  is_running :: bool

definition stop :: "ProcessingThread \<Rightarrow> ProcessingThread" where
  "stop th = th\<lparr>is_running := False\<rparr>"

text \<open>
  \<open>ProcessingThread.run\<close>.  \<open>stop()\<close> is executed by the GUI thread while
  \<open>process_audio\<close> runs: \<open>stop_at = Some k\<close> says that it ran after the \<open>k\<close>th progress
  checkpoint of the pipeline, \<open>None\<close> that it did not run before the check that follows
  the pipeline.  \<open>process_audio\<close> receives the task and the progress callback only, so
  the flag is read for the first time after it has returned.
\<close>

definition run ::
  "env \<Rightarrow> ProcessingThread \<Rightarrow> nat option \<Rightarrow> filesystem \<Rightarrow>
   event list \<times> ProcessingThread \<times> filesystem" where
  "run e th stop_at fs =
     (let th1 = th\<lparr>is_running := True\<rparr>;
          (success, tr, fs') = process_audio e (task th1) True fs;
          evs = map (progress_updated (name (task th1))) tr;
          th2 = (case stop_at of None \<Rightarrow> th1 | Some k \<Rightarrow> stop th1);
          done = th2\<lparr>is_running := False\<rparr>
      in if \<not> is_running th2 then
           (evs @ [task_completed (name (task th1)) False ''Task cancelled''], done, fs')
         else if success then
           (evs @ [task_completed (name (task th1)) True ''Processing completed successfully''],
            done, fs')
         else (evs @ [task_completed (name (task th1)) False ''Processing failed''], done, fs'))"

section \<open>The main window\<close>

record TaskItem =
  filename_label :: string
  item_is_running :: bool
  progress_bar :: int
  status_label :: "(bool \<times> string) option"

definition TaskItem_init :: "string \<Rightarrow> TaskItem" where
  "TaskItem_init task_name =
     \<lparr>filename_label = task_name, item_is_running = False, progress_bar = 0,
      status_label = None\<rparr>"

text \<open>What \<open>TaskDialog.get_configuration\<close> returns.\<close>

record configuration =
  cfg_input_path :: string
  cfg_noise_reduction_level :: NoiseReductionLevel
  cfg_enable_speech_enhancement :: bool
  cfg_speech_enhancement_level :: SpeechEnhancementLevel
  cfg_voice_clarity_boost :: bool
  cfg_background_noise_level :: BackgroundNoiseLevel

datatype dialog_result = Rejected | Accepted configuration

record MainWindow =
  tasks :: "string \<rightharpoonup> (AudioTask \<times> TaskItem)"
  processing_threads :: "string \<rightharpoonup> ProcessingThread"
  task_layout :: "TaskItem list"

definition task_of_configuration :: "configuration \<Rightarrow> AudioTask" where
  "task_of_configuration config =
     AudioTask_init (cfg_input_path config) [] (cfg_noise_reduction_level config)
       (cfg_enable_speech_enhancement config) (cfg_speech_enhancement_level config)
       (cfg_voice_clarity_boost config) (cfg_background_noise_level config)"

definition add_task :: "MainWindow \<Rightarrow> dialog_result \<Rightarrow> MainWindow" where
  "add_task w d =
     (case d of
        Rejected \<Rightarrow> w
      | Accepted config \<Rightarrow>
          if cfg_input_path config \<noteq> [] then
            (let t = task_of_configuration config;
                 task_item = TaskItem_init (name t)
             in w\<lparr>tasks := (tasks w)(name t \<mapsto> (t, task_item)),
                  task_layout := task_layout w @ [task_item]\<rparr>)
          else w)"

text \<open>A registered task that is not running.\<close>

definition idle :: "MainWindow \<Rightarrow> string \<Rightarrow> bool" where
  "idle w n =
     (case tasks w n of
        None \<Rightarrow> False
      | Some (t, task_item) \<Rightarrow> \<not> item_is_running task_item \<and> processing_threads w n = None)"

text \<open>The paths that \<open>Path\<close> produces: a POSIX root and clean components.\<close>

definition wf_path :: "ppath \<Rightarrow> bool" where
  "wf_path p =
     (proot p \<in> {[], ''/'', ''//''} \<and>
      (\<forall>x\<in>set (pparts p). x \<noteq> [] \<and> x \<noteq> ''.'' \<and> CHR ''/'' \<notin> set x))"

text \<open>Whether \<open>xs\<close> can be obtained from \<open>ys\<close> by deleting elements.\<close>

fun subsequence_of :: "'a list \<Rightarrow> 'a list \<Rightarrow> bool" where
  "subsequence_of [] ys = True"
| "subsequence_of (x # xs) [] = False"
| "subsequence_of (x # xs) (y # ys) =
     (if x = y then subsequence_of xs ys else subsequence_of (x # xs) ys)"

section \<open>Concrete collaborators\<close>

text \<open>
  An environment in which one recording exists and every library call succeeds, and one
  in which the path writer creates the file, writes a part of it and raises.
\<close>

definition demo_env :: env where
  "demo_env =
     \<lparr>librosa_load =
        (\<lambda>p. if p = ''a.wav'' \<or> p = ''a.mp3'' then Inr ([0, 1, 0], 2)
             else Inl (Exception ''no such file'')),
      reduce_noise = (\<lambda>c. Inr (nr_y c)),
      sf_write = (\<lambda>p y sr fs. (None, fs(p \<mapsto> ''RIFF''))),
      sf_write_buffer = (\<lambda>y sr. Inr ''RIFF''),
      from_wav = (\<lambda>b. Inr b),
      export = (\<lambda>seg p fmt fs. (None, fs(p \<mapsto> ''ID3'')))\<rparr>"

definition failing_writer_env :: env where
  "failing_writer_env =
     demo_env\<lparr>sf_write := (\<lambda>p y sr fs. (Some (Exception ''disk full''), fs(p \<mapsto> ''RI'')))\<rparr>"

definition demo_thread :: ProcessingThread where
  "demo_thread = \<lparr>task = default_task ''a.wav'', is_running = False\<rparr>"

definition empty_window :: MainWindow where
  "empty_window = \<lparr>tasks = Map.empty, processing_threads = Map.empty, task_layout = []\<rparr>"

definition demo_configuration :: "string \<Rightarrow> NoiseReductionLevel \<Rightarrow> configuration" where
  "demo_configuration ip level =
     \<lparr>cfg_input_path = ip, cfg_noise_reduction_level = level,
      cfg_enable_speech_enhancement = True, cfg_speech_enhancement_level = SE_MEDIUM,
      cfg_voice_clarity_boost = True, cfg_background_noise_level = MODERATE\<rparr>"

section \<open>Properties of the path library\<close>

lemma rfind_dot_lower: "- 1 \<le> rfind_dot s"
  by (induction s) (auto simp: Let_def)

lemma rfind_dot_upper: "rfind_dot s < int (length s)"
  by (induction s) (auto simp: Let_def)

lemma rfind_dot_none: "(rfind_dot s = - 1) = (CHR ''.'' \<notin> set s)"
proof (induction s)
  case Nil
  then show ?case by simp
next
  case (Cons c cs)
  have "- 1 \<le> rfind_dot cs" by (rule rfind_dot_lower)
  with Cons show ?case by (auto simp: Let_def)
qed

lemma rfind_dot_append:
  "rfind_dot (a @ b) =
     (if CHR ''.'' \<in> set b then int (length a) + rfind_dot b else rfind_dot a)"
proof (induction a)
  case Nil
  then show ?case by (simp add: rfind_dot_none)
next
  case (Cons c a)
  have "CHR ''.'' \<in> set b \<Longrightarrow> int (length a) + rfind_dot b \<noteq> - 1"
    using rfind_dot_none [of b] rfind_dot_lower [of b] by linarith
  with Cons show ?case by (auto simp: Let_def)
qed

lemma rfind_dot_drop:
  "0 \<le> rfind_dot s \<Longrightarrow> rfind_dot (drop (nat (rfind_dot s)) s) = 0"
proof (induction s)
  case Nil
  then show ?case by simp
next
  case (Cons c cs)
  show ?case
  proof (cases "rfind_dot cs = - 1")
    case True
    with Cons.prems show ?thesis by (auto simp: Let_def split: if_splits)
  next
    case False
    then have nn: "0 \<le> rfind_dot cs" using rfind_dot_lower [of cs] by linarith
    then have "nat (rfind_dot cs + 1) = Suc (nat (rfind_dot cs))" by simp
    with False Cons.IH [OF nn] show ?thesis by (simp add: Let_def)
  qed
qed

lemma split_sep_nonempty: "split_sep s \<noteq> []"
  by (induction s) auto

lemma split_sep_free: "CHR ''/'' \<notin> set x \<Longrightarrow> split_sep x = [x]"
  by (induction x) auto

lemma split_sep_append:
  "split_sep (a @ CHR ''/'' # b) = split_sep a @ split_sep b"
  by (induction a) (auto simp: split_sep_nonempty)

lemma split_sep_parts: "x \<in> set (split_sep s) \<Longrightarrow> CHR ''/'' \<notin> set x"
proof (induction s arbitrary: x)
  case Nil
  then show ?case by simp
next
  case (Cons c cs)
  have ne: "split_sep cs \<noteq> []" by (rule split_sep_nonempty)
  show ?case
  proof (cases "c = CHR ''/''")
    case True
    with Cons show ?thesis by auto
  next
    case False
    with Cons.prems have "x = c # hd (split_sep cs) \<or> x \<in> set (tl (split_sep cs))"
      by simp
    then show ?thesis
    proof
      assume "x = c # hd (split_sep cs)"
      moreover have "hd (split_sep cs) \<in> set (split_sep cs)" using ne by simp
      ultimately show ?thesis using Cons.IH False by auto
    next
      assume "x \<in> set (tl (split_sep cs))"
      then have "x \<in> set (split_sep cs)" using ne by (auto dest: list.set_sel(2))
      then show ?thesis by (rule Cons.IH)
    qed
  qed
qed

lemma split_join:
  "ps \<noteq> [] \<Longrightarrow> \<forall>x\<in>set ps. CHR ''/'' \<notin> set x \<Longrightarrow> split_sep (join_sep ps) = ps"
proof (induction ps rule: join_sep.induct)
  case 1
  then show ?case by simp
next
  case (2 p)
  then show ?case by (simp add: split_sep_free)
next
  case (3 p q ps)
  then show ?case by (simp add: split_sep_append split_sep_free)
qed

lemma splitroot_root: "fst (splitroot s) \<in> {[], ''/'', ''//''}"
  by (simp add: splitroot_def Let_def)

lemma wf_Path: "wf_path (Path s)"
  using splitroot_root [of s]
  by (auto simp: wf_path_def Path_def split_def dest: split_sep_parts)

lemma join_sep_hd:
  "ps \<noteq> [] \<Longrightarrow> \<forall>x\<in>set ps. x \<noteq> [] \<Longrightarrow>
     join_sep ps \<noteq> [] \<and> hd (join_sep ps) = hd (hd ps)"
  by (induction ps rule: join_sep.induct) auto

lemma join_sep_rel:
  assumes "\<forall>x\<in>set ps. x \<noteq> [] \<and> x \<noteq> ''.'' \<and> CHR ''/'' \<notin> set x"
  shows "join_sep ps = [] \<or> hd (join_sep ps) \<noteq> CHR ''/''"
proof (cases ps)
  case Nil
  then show ?thesis by simp
next
  case (Cons p qs)
  then have "hd (join_sep ps) = hd p" using assms join_sep_hd [of ps] by auto
  moreover have "p \<noteq> []" and "CHR ''/'' \<notin> set p" using assms Cons by auto
  then have "hd p \<noteq> CHR ''/''" by (cases p) auto
  ultimately show ?thesis by simp
qed

lemma filter_split_join:
  assumes "\<forall>x\<in>set ps. x \<noteq> [] \<and> x \<noteq> ''.'' \<and> CHR ''/'' \<notin> set x"
  shows "filter (\<lambda>x. x \<noteq> [] \<and> x \<noteq> ''.'') (split_sep (join_sep ps)) = ps"
proof (cases ps)
  case Nil
  then show ?thesis by simp
next
  case (Cons p qs)
  then have "split_sep (join_sep ps) = ps" using assms by (intro split_join) auto
  then show ?thesis using assms by (simp add: filter_id_conv)
qed

lemma splitroot_relative: "r = [] \<or> hd r \<noteq> CHR ''/'' \<Longrightarrow> splitroot r = ([], r)"
  by (auto simp: splitroot_def)

lemma dropWhile_rel:
  "r = [] \<or> hd r \<noteq> CHR ''/'' \<Longrightarrow> dropWhile (\<lambda>c. c = CHR ''/'') r = r"
  by (cases r) auto

lemma splitroot_one: "r = [] \<or> hd r \<noteq> CHR ''/'' \<Longrightarrow> splitroot (CHR ''/'' # r) = (''/'', r)"
  by (simp add: splitroot_def dropWhile_rel)

lemma splitroot_two:
  "r = [] \<or> hd r \<noteq> CHR ''/'' \<Longrightarrow> splitroot (CHR ''/'' # CHR ''/'' # r) = (''//'', r)"
  by (simp add: splitroot_def dropWhile_rel)

lemma Path_str_path:
  assumes "wf_path p"
  shows "Path (str_path p) = p"
proof -
  let ?r = "join_sep (pparts p)"
  have ps: "\<forall>x\<in>set (pparts p). x \<noteq> [] \<and> x \<noteq> ''.'' \<and> CHR ''/'' \<notin> set x"
    using assms by (simp add: wf_path_def)
  have rel: "?r = [] \<or> hd ?r \<noteq> CHR ''/''" using ps by (rule join_sep_rel)
  have flt: "filter (\<lambda>x. x \<noteq> [] \<and> x \<noteq> ''.'') (split_sep ?r) = pparts p"
    using ps by (rule filter_split_join)
  have "proot p = [] \<or> proot p = ''/'' \<or> proot p = ''//''"
    using assms by (simp add: wf_path_def)
  then show ?thesis
  proof (elim disjE)
    assume r0: "proot p = []"
    show ?thesis
    proof (cases "?r = []")
      case True
      then have "pparts p = []" using flt by auto
      with r0 True show ?thesis by (simp add: str_path_def Path_def splitroot_def)
    next
      case False
      with r0 rel flt show ?thesis
        by (simp add: str_path_def Path_def splitroot_relative)
    qed
  next
    assume r1: "proot p = ''/''"
    with rel flt show ?thesis
      by (simp add: str_path_def Path_def splitroot_one)
  next
    assume r2: "proot p = ''//''"
    with rel flt show ?thesis
      by (simp add: str_path_def Path_def splitroot_two)
  qed
qed

lemma rfind_dot_last:
  "s \<noteq> [] \<Longrightarrow> rfind_dot s = int (length s) - 1 \<Longrightarrow> last s = CHR ''.''"
proof (induction s)
  case Nil
  then show ?case by simp
next
  case (Cons c cs)
  show ?case
  proof (cases "cs = []")
    case True
    with Cons.prems show ?thesis by (simp split: if_splits)
  next
    case False
    have "- 1 \<le> rfind_dot cs" by (rule rfind_dot_lower)
    with False Cons show ?thesis by (auto simp: Let_def split: if_splits)
  qed
qed

lemma stem_suffix: "stem p @ suffix p = name_of p"
  by (simp add: stem_def suffix_def Let_def)

lemma name_of_free: "wf_path p \<Longrightarrow> CHR ''/'' \<notin> set (name_of p)"
  by (auto simp: wf_path_def name_of_def)

lemma cleaned_free:
  assumes "wf_path p"
  shows "CHR ''/'' \<notin> set (stem p @ ''_cleaned'' @ suffix p)"
proof -
  have "set (stem p) \<union> set (suffix p) = set (name_of p)"
    using stem_suffix [of p] by (metis set_append)
  then show ?thesis using name_of_free [OF assms] by auto
qed

lemma Path_single:
  assumes "CHR ''/'' \<notin> set x" and "x \<noteq> []" and "x \<noteq> ''.''"
  shows "Path x = \<lparr>proot = [], pparts = [x]\<rparr>"
proof -
  have "hd x \<noteq> CHR ''/''" using assms by (cases x) auto
  then have "splitroot x = ([], x)" by (simp add: splitroot_relative)
  then show ?thesis using assms by (simp add: Path_def split_sep_free)
qed

lemma truediv_cleaned:
  assumes "wf_path p"
  shows "truediv (parent p) (stem p @ ''_cleaned'' @ suffix p) =
           \<lparr>proot = proot p, pparts = butlast (pparts p) @ [stem p @ ''_cleaned'' @ suffix p]\<rparr>"
proof -
  let ?x = "stem p @ ''_cleaned'' @ suffix p"
  have "length ?x \<noteq> length ''.''" by simp
  then have "?x \<noteq> ''.''" by metis
  moreover have "?x \<noteq> []" by simp
  ultimately have "Path ?x = \<lparr>proot = [], pparts = [?x]\<rparr>"
    using cleaned_free [OF assms] by (intro Path_single)
  then show ?thesis by (simp add: truediv_def parent_def)
qed

lemma wf_cleaned:
  assumes "wf_path p"
  shows "wf_path \<lparr>proot = proot p, pparts = butlast (pparts p) @ [stem p @ ''_cleaned'' @ suffix p]\<rparr>"
proof -
  let ?x = "stem p @ ''_cleaned'' @ suffix p"
  have "length ?x \<noteq> length ''.''" by simp
  then have "?x \<noteq> ''.''" by metis
  moreover have "\<forall>y\<in>set (butlast (pparts p)). y \<noteq> [] \<and> y \<noteq> ''.'' \<and> CHR ''/'' \<notin> set y"
    using assms by (auto simp: wf_path_def dest: in_set_butlastD)
  ultimately show ?thesis
    using assms cleaned_free [OF assms] by (simp add: wf_path_def)
qed

lemma Path_output_path:
  "Path (output_path t) =
     \<lparr>proot = proot (Path (input_path t)),
      pparts = butlast (pparts (Path (input_path t))) @
        [stem (Path (input_path t)) @ ''_cleaned'' @ suffix (Path (input_path t))]\<rparr>"
proof -
  let ?p = "Path (input_path t)"
  have wf: "wf_path ?p" by (rule wf_Path)
  have "output_path t =
      str_path \<lparr>proot = proot ?p, pparts = butlast (pparts ?p) @ [stem ?p @ ''_cleaned'' @ suffix ?p]\<rparr>"
    unfolding output_path_def Let_def truediv_cleaned [OF wf] ..
  then show ?thesis by (simp only: Path_str_path [OF wf_cleaned [OF wf]])
qed

lemma stem_suffix_cleaned:
  assumes nq: "name_of q = stem p @ ''_cleaned'' @ suffix p"
    and nd: "\<not> ends_with_dot (name_of p)"
  shows "stem q = stem p @ ''_cleaned'' \<and> suffix q = suffix p"
proof (cases "0 < rfind_dot (name_of p) \<and> rfind_dot (name_of p) < int (length (name_of p)) - 1")
  case True
  let ?n = "name_of p"
  let ?i = "rfind_dot ?n"
  have st: "stem p = take (nat ?i) ?n" and sf: "suffix p = drop (nat ?i) ?n"
    using True by (simp_all add: stem_def suffix_def Let_def)
  have "rfind_dot (suffix p) = 0" using True sf rfind_dot_drop [of ?n] by simp
  then have r0: "rfind_dot (suffix p) = 0" and dot: "CHR ''.'' \<in> set (suffix p)"
    using rfind_dot_none [of "suffix p"] by auto
  have "nat ?i \<le> length ?n" using True by linarith
  then have lst: "length (stem p) = nat ?i" using st by simp
  have "nat ?i + 2 \<le> length ?n" using True by linarith
  then have lsf: "2 \<le> length (suffix p)" using sf by simp
  have "rfind_dot (name_of q) = int (length (stem p @ ''_cleaned''))"
    using rfind_dot_append [of "stem p @ ''_cleaned''" "suffix p"] dot r0 nq by simp
  then have rq: "rfind_dot (name_of q) = int (length (stem p)) + 8" by simp
  have lq: "length (name_of q) = length (stem p) + 8 + length (suffix p)" using nq by simp
  have cond: "0 < rfind_dot (name_of q) \<and> rfind_dot (name_of q) < int (length (name_of q)) - 1"
    using rq lq lsf by simp
  define a where "a = stem p @ ''_cleaned''"
  have nqa: "name_of q = a @ suffix p" using nq by (simp add: a_def)
  have nn: "nat (rfind_dot (name_of q)) = length a" using rq by (simp add: a_def)
  have "stem q = take (length a) (a @ suffix p)"
    using cond nn nqa by (simp add: stem_def Let_def)
  moreover have "suffix q = drop (length a) (a @ suffix p)"
    using cond nn nqa by (simp add: suffix_def Let_def)
  ultimately show ?thesis by (simp add: a_def)
next
  case False
  let ?n = "name_of p"
  have st: "stem p = ?n" and sf: "suffix p = []"
    unfolding stem_def suffix_def Let_def using False by (simp_all only: if_False)
  have nq': "name_of q = ?n @ ''_cleaned''" using nq st sf by simp
  have rq: "rfind_dot (name_of q) = rfind_dot ?n"
    using rfind_dot_append [of ?n "''_cleaned''"] nq' by simp
  have "rfind_dot ?n \<le> 0"
  proof (rule ccontr)
    assume a: "\<not> rfind_dot ?n \<le> 0"
    then have ne: "?n \<noteq> []" by auto
    from a False rfind_dot_upper [of ?n] have "rfind_dot ?n = int (length ?n) - 1" by linarith
    with ne have "last ?n = CHR ''.''" by (rule rfind_dot_last)
    with ne nd show False by (simp add: ends_with_dot_def)
  qed
  with rq nq' st sf show ?thesis by (simp add: stem_def suffix_def Let_def)
qed

lemma ip_default [simp]: "input_path (default_task s) = s"
  by (simp add: default_task_def AudioTask_init_def post_init_def)

section \<open>The derived output path and format\<close>

text \<open>
  Claim C3, as the code has it.  For every task, the output path read back as a path has
  the parent of the input path and the name \<open>stem @ _cleaned @ suffix\<close> of the input
  (the suffix with its leading dot, empty when the name has none), and the output path is
  never the input path.  When the file name of the input does not end in a dot, the stem
  of the output path is the stem of the input followed by \<open>_cleaned\<close> and its suffix is
  the suffix of the input.
\<close>

theorem output_path_next_to_input:
  "parent (Path (output_path t)) = parent (Path (input_path t)) \<and>
   name_of (Path (output_path t)) =
     stem (Path (input_path t)) @ ''_cleaned'' @ suffix (Path (input_path t)) \<and>
   output_path t \<noteq> input_path t \<and>
   (\<not> ends_with_dot (name_of (Path (input_path t))) \<longrightarrow>
      stem (Path (output_path t)) = stem (Path (input_path t)) @ ''_cleaned'' \<and>
      suffix (Path (output_path t)) = suffix (Path (input_path t)))"
proof -
  let ?p = "Path (input_path t)"
  let ?q = "Path (output_path t)"
  have q: "?q = \<lparr>proot = proot ?p,
      pparts = butlast (pparts ?p) @ [stem ?p @ ''_cleaned'' @ suffix ?p]\<rparr>"
    by (rule Path_output_path)
  have par: "parent ?q = parent ?p" by (simp add: q parent_def)
  have nm: "name_of ?q = stem ?p @ ''_cleaned'' @ suffix ?p" by (simp add: q name_of_def)
  have ss: "stem ?q = stem ?p @ ''_cleaned'' \<and> suffix ?q = suffix ?p"
    if "\<not> ends_with_dot (name_of ?p)"
    using nm that by (rule stem_suffix_cleaned)
  have "output_path t \<noteq> input_path t"
  proof
    assume "output_path t = input_path t"
    then have "name_of ?p = stem ?p @ ''_cleaned'' @ suffix ?p" using nm by simp
    then have "length (name_of ?p) = length (stem ?p @ suffix ?p) + 8" by simp
    then show False unfolding stem_suffix by simp
  qed
  with par nm ss show ?thesis by blast
qed

theorem output_path_witness:
  "\<not> ends_with_dot (name_of (Path (input_path (default_task ''d/a.wav'')))) \<and>
   output_path (default_task ''d/a.wav'') = ''d/a_cleaned.wav'' \<and>
   stem (Path (output_path (default_task ''d/a.wav''))) = ''a_cleaned'' \<and>
   suffix (Path (output_path (default_task ''d/a.wav''))) = ''.wav''"
proof -
  have h: "\<not> ends_with_dot (name_of (Path (input_path (default_task ''d/a.wav''))))"
    by code_simp
  have s: "stem (Path (input_path (default_task ''d/a.wav''))) = ''a''"
    and x: "suffix (Path (input_path (default_task ''d/a.wav''))) = ''.wav''"
    and o: "output_path (default_task ''d/a.wav'') = ''d/a_cleaned.wav''"
    by code_simp+
  from output_path_next_to_input [of "default_task ''d/a.wav''"] s x o h
  show ?thesis by simp
qed

text \<open>
  Claim C3 as stated fails where the file name of the input ends in a dot: for the input
  \<open>a.\<close> the output is \<open>a._cleaned\<close>, whose stem is \<open>a\<close> and whose suffix is \<open>._cleaned\<close>.
\<close>

theorem output_path_trailing_dot_counterexample:
  "stem (Path (output_path (default_task ''a.''))) \<noteq>
     stem (Path (input_path (default_task ''a.''))) @ ''_cleaned'' \<and>
   suffix (Path (output_path (default_task ''a.''))) \<noteq>
     suffix (Path (input_path (default_task ''a.'')))"
  by code_simp

text \<open>
  Claim C8.  For every input path, a suffix that is, in lower case, one of the six
  recognised extensions gives that extension as the output format, and every other suffix
  gives \<open>wav\<close>.
\<close>

theorem output_format_table:
  "(\<forall>f\<in>set [''wav'', ''mp3'', ''m4a'', ''aac'', ''ogg'', ''flac''].
      lower (suffix (Path (input_path t))) = CHR ''.'' # f \<longrightarrow> output_format t = f) \<and>
   (lower (suffix (Path (input_path t))) \<notin>
      (\<lambda>f. CHR ''.'' # f) ` set [''wav'', ''mp3'', ''m4a'', ''aac'', ''ogg'', ''flac''] \<longrightarrow>
    output_format t = ''wav'')"
  by (simp add: output_format_def format_map_def Let_def)

theorem output_format_witness:
  "lower (suffix (Path (input_path (default_task ''x.MP3'')))) = ''.mp3'' \<and>
   output_format (default_task ''x.MP3'') = ''mp3'' \<and>
   lower (suffix (Path (input_path (default_task ''x.txt'')))) = ''.txt'' \<and>
   output_format (default_task ''x.txt'') = ''wav''"
proof -
  have a: "lower (suffix (Path (input_path (default_task ''x.MP3'')))) = ''.mp3''"
    and b: "lower (suffix (Path (input_path (default_task ''x.txt'')))) = ''.txt''"
    by code_simp+
  from output_format_table [of "default_task ''x.MP3''"] a
  have 1: "output_format (default_task ''x.MP3'') = ''mp3''" by simp
  from output_format_table [of "default_task ''x.txt''"] b
  have 2: "output_format (default_task ''x.txt'') = ''wav''" by simp
  from a b 1 2 show ?thesis by simp
qed

section \<open>The pipeline\<close>

lemma process_audio_cases:
  "process_audio e t cb fs =
     (case librosa_load e (input_path t) of
        Inl ex \<Rightarrow> (False, report cb 10 [], fs)
      | Inr (y, sr) \<Rightarrow>
          (case apply_noise_reduction e y sr (noise_reduction_level t) of
             Inl ex \<Rightarrow> (False, report cb 30 (report cb 10 []), fs)
           | Inr y_clean \<Rightarrow>
               (let tr3 = (if enable_speech_enhancement t
                           then report cb 60 (report cb 30 (report cb 10 []))
                           else report cb 30 (report cb 10 []))
                in case save_audio e t y_clean sr fs of
                     (Some ex, fs') \<Rightarrow> (False, report cb 80 tr3, fs')
                   | (None, fs') \<Rightarrow> (True, report cb 100 (report cb 80 tr3), fs'))))"
  by (simp add: process_audio_def process_audio_body_def enhance_speech_def Let_def
      split: sum.splits prod.splits option.splits)

lemma process_audio_success_trace:
  assumes "fst (process_audio e t cb fs)"
  shows "fst (snd (process_audio e t cb fs)) =
           (if cb then (if enable_speech_enhancement t then [10, 30, 60, 80, 100]
                        else [10, 30, 80, 100])
            else [])"
  using assms
  by (auto simp: process_audio_cases report_def Let_def split: sum.splits prod.splits option.splits)

text \<open>
  Claim C1.  On a successful run the values given to the progress callback are strictly
  increasing, are stage checkpoints in the range 0 to 100, and end with 100; with speech
  enhancement disabled they form a subsequence of 10, 30, 80, 100 and 60 is not among them.
\<close>

theorem progress_on_success:
  assumes "fst (process_audio e t cb fs)"
  shows "sorted_wrt (<) (fst (snd (process_audio e t cb fs))) \<and>
         set (fst (snd (process_audio e t cb fs))) \<subseteq> {10, 30, 60, 80, 100} \<and>
         (\<forall>p\<in>set (fst (snd (process_audio e t cb fs))). 0 \<le> p \<and> p \<le> 100) \<and>
         (cb \<longrightarrow> fst (snd (process_audio e t cb fs)) \<noteq> [] \<and>
                last (fst (snd (process_audio e t cb fs))) = 100) \<and>
         (\<not> enable_speech_enhancement t \<longrightarrow>
            subsequence_of (fst (snd (process_audio e t cb fs))) [10, 30, 80, 100] \<and>
            60 \<notin> set (fst (snd (process_audio e t cb fs))))"
  unfolding process_audio_success_trace [OF assms] by simp

theorem progress_on_success_witness:
  "fst (process_audio demo_env
         ((default_task ''a.wav'')\<lparr>enable_speech_enhancement := False\<rparr>) True Map.empty) \<and>
   fst (snd (process_audio demo_env
         ((default_task ''a.wav'')\<lparr>enable_speech_enhancement := False\<rparr>) True Map.empty)) =
     [10, 30, 80, 100] \<and>
   subsequence_of (fst (snd (process_audio demo_env
         ((default_task ''a.wav'')\<lparr>enable_speech_enhancement := False\<rparr>) True Map.empty)))
     [10, 30, 80, 100]"
proof -
  let ?t = "(default_task ''a.wav'')\<lparr>enable_speech_enhancement := False\<rparr>"
  have h: "fst (process_audio demo_env ?t True Map.empty)" by code_simp
  have tr: "fst (snd (process_audio demo_env ?t True Map.empty)) = [10, 30, 80, 100]"
    by code_simp
  have d: "\<not> enable_speech_enhancement ?t" by simp
  from progress_on_success [OF h] d h tr show ?thesis by simp
qed

text \<open>
  Claim C4.  For every signal, sample rate and level, the noise clip handed to the noise
  reducer is the slice \<open>y[:sr]\<close>, which for a sample rate that is not negative is the
  first \<open>sr\<close> samples, is the whole signal when the signal has no more than \<open>sr\<close>
  samples, and is never longer than the signal; the strength is 0.5 for light, 0.7 for
  medium and 0.9 for strong.
\<close>

theorem noise_reference_and_strength:
  "noise_reduction_call y sr level =
     Inr \<lparr>nr_y = y, nr_sr = sr, y_noise = slice_to y sr,
          prop_decrease = (case level of LIGHT \<Rightarrow> 0.5 | MEDIUM \<Rightarrow> 0.7 | STRONG \<Rightarrow> 0.9),
          stationary = True, n_std_thresh_stationary = 1.5\<rparr> \<and>
   apply_noise_reduction e y sr level =
     reduce_noise e \<lparr>nr_y = y, nr_sr = sr, y_noise = slice_to y sr,
          prop_decrease = (case level of LIGHT \<Rightarrow> 0.5 | MEDIUM \<Rightarrow> 0.7 | STRONG \<Rightarrow> 0.9),
          stationary = True, n_std_thresh_stationary = 1.5\<rparr> \<and>
   (0 \<le> sr \<longrightarrow> slice_to y sr = take (nat sr) y) \<and>
   (int (length y) \<le> sr \<longrightarrow> slice_to y sr = y) \<and>
   length (slice_to y sr) \<le> length y"
  by (cases level)
     (simp_all add: apply_noise_reduction_def noise_reduction_call_def
        reduction_strength_table_def slice_to_def Let_def)

theorem noise_reference_and_strength_witness:
  "(0::int) \<le> 2 \<and> slice_to [0, 1, 0, 1 :: real] 2 = [0, 1] \<and>
   int (length [0, 1, 0 :: real]) \<le> 8 \<and> slice_to [0, 1, 0 :: real] 8 = [0, 1, 0] \<and>
   noise_reduction_call [0, 1, 0] 8 MEDIUM =
     Inr \<lparr>nr_y = [0, 1, 0], nr_sr = 8, y_noise = [0, 1, 0], prop_decrease = 0.7,
          stationary = True, n_std_thresh_stationary = 1.5\<rparr>"
proof -
  have a: "(0::int) \<le> 2" and b: "int (length [0, 1, 0 :: real]) \<le> 8" by simp_all
  from noise_reference_and_strength [of "[0, 1, 0, 1]" 2 MEDIUM] a
  have 1: "slice_to [0, 1, 0, 1 :: real] 2 = [0, 1]" by simp
  from noise_reference_and_strength [of "[0, 1, 0]" 8 MEDIUM] b
  have 2: "slice_to [0, 1, 0 :: real] 8 = [0, 1, 0]"
    and 3: "noise_reduction_call [0, 1, 0] 8 MEDIUM =
     Inr \<lparr>nr_y = [0, 1, 0], nr_sr = 8, y_noise = [0, 1, 0], prop_decrease = 0.7,
          stationary = True, n_std_thresh_stationary = 1.5\<rparr>" by simp_all
  from a b 1 2 3 show ?thesis by simp
qed

lemma output_path_toggle [simp]:
  "output_path (t\<lparr>enable_speech_enhancement := b\<rparr>) = output_path t"
  by (simp add: output_path_def)

lemma encode_route_toggle [simp]:
  "encode_route_of (t\<lparr>enable_speech_enhancement := b\<rparr>) = encode_route_of t"
  by (simp add: encode_route_of_def output_format_def)

lemma save_audio_toggle [simp]:
  "save_audio e (t\<lparr>enable_speech_enhancement := b\<rparr>) y sr fs = save_audio e t y sr fs"
  by (simp add: save_audio_def split: encode_route.splits sum.splits)

text \<open>
  Claim C9.  The speech enhancement stage returns its input buffer unchanged, for every
  buffer and sample rate; the pipeline therefore hands the same buffer and sample rate to
  the save stage whether enhancement is enabled or not, and ends with the same result and
  the same files.
\<close>

theorem enhance_speech_identity:
  "enhance_speech y sr = Inr y \<and>
   fst (process_audio e (t\<lparr>enable_speech_enhancement := True\<rparr>) cb fs) =
     fst (process_audio e (t\<lparr>enable_speech_enhancement := False\<rparr>) cb fs) \<and>
   snd (snd (process_audio e (t\<lparr>enable_speech_enhancement := True\<rparr>) cb fs)) =
     snd (snd (process_audio e (t\<lparr>enable_speech_enhancement := False\<rparr>) cb fs))"
  by (simp add: enhance_speech_def process_audio_cases Let_def
      split: sum.splits prod.splits option.splits)



section \<open>The save stage\<close>

text \<open>
  Claim C6, as the code has it.  The save stage hands the output path itself to the
  writer: \<open>sf.write\<close> for every format but mp3, \<open>AudioSegment.export\<close> for mp3 after
  the in-memory steps; there is no temporary file and no rename.  When the save stage
  raises, \<open>process_audio\<close> returns false, has not reported 100, and leaves the file system
  exactly as the failing writer left it.
\<close>

theorem encode_in_place:
  "save_audio e t y sr fs =
     (if lower (output_format t) = ''mp3'' then
        (case sf_write_buffer e y sr of
           Inl ex \<Rightarrow> (Some ex, fs)
         | Inr wav_buffer \<Rightarrow>
             (case from_wav e wav_buffer of
                Inl ex \<Rightarrow> (Some ex, fs)
              | Inr audio_segment \<Rightarrow> export e audio_segment (output_path t) ''mp3'' fs))
      else sf_write e (output_path t) y sr fs) \<and>
   (\<forall>y0 y_clean ex.
      librosa_load e (input_path t) = Inr (y0, sr) \<longrightarrow>
      apply_noise_reduction e y0 sr (noise_reduction_level t) = Inr y_clean \<longrightarrow>
      fst (save_audio e t y_clean sr fs) = Some ex \<longrightarrow>
        \<not> fst (process_audio e t cb fs) \<and>
        100 \<notin> set (fst (snd (process_audio e t cb fs))) \<and>
        snd (snd (process_audio e t cb fs)) = snd (save_audio e t y_clean sr fs))"
proof -
  have 1: "save_audio e t y sr fs =
     (if lower (output_format t) = ''mp3'' then
        (case sf_write_buffer e y sr of
           Inl ex \<Rightarrow> (Some ex, fs)
         | Inr wav_buffer \<Rightarrow>
             (case from_wav e wav_buffer of
                Inl ex \<Rightarrow> (Some ex, fs)
              | Inr audio_segment \<Rightarrow> export e audio_segment (output_path t) ''mp3'' fs))
      else sf_write e (output_path t) y sr fs)"
    by (simp add: save_audio_def encode_route_of_def)
  have 2: "\<not> fst (process_audio e t cb fs) \<and>
        100 \<notin> set (fst (snd (process_audio e t cb fs))) \<and>
        snd (snd (process_audio e t cb fs)) = snd (save_audio e t y_clean sr fs)"
    if "librosa_load e (input_path t) = Inr (y0, sr)"
      and "apply_noise_reduction e y0 sr (noise_reduction_level t) = Inr y_clean"
      and "fst (save_audio e t y_clean sr fs) = Some ex"
    for y0 y_clean ex
    using that
    by (auto simp: process_audio_cases report_def Let_def split: prod.splits option.splits)
  from 1 2 show ?thesis by blast
qed

theorem encode_in_place_witness:
  "librosa_load failing_writer_env (input_path (default_task ''a.wav'')) = Inr ([0, 1, 0], 2) \<and>
   apply_noise_reduction failing_writer_env [0, 1, 0] 2
     (noise_reduction_level (default_task ''a.wav'')) = Inr [0, 1, 0] \<and>
   fst (save_audio failing_writer_env (default_task ''a.wav'') [0, 1, 0] 2 Map.empty) =
     Some (Exception ''disk full'') \<and>
   \<not> fst (process_audio failing_writer_env (default_task ''a.wav'') True Map.empty) \<and>
   snd (snd (process_audio failing_writer_env (default_task ''a.wav'') True Map.empty)) =
     snd (save_audio failing_writer_env (default_task ''a.wav'') [0, 1, 0] 2 Map.empty)"
proof -
  have a: "librosa_load failing_writer_env (input_path (default_task ''a.wav'')) =
             Inr ([0, 1, 0], 2)"
    and b: "apply_noise_reduction failing_writer_env [0, 1, 0] 2
              (noise_reduction_level (default_task ''a.wav'')) = Inr [0, 1, 0]"
    and c: "fst (save_audio failing_writer_env (default_task ''a.wav'') [0, 1, 0] 2 Map.empty) =
              Some (Exception ''disk full'')"
    by code_simp+
  from encode_in_place [of failing_writer_env "default_task ''a.wav''" "[]" 2 Map.empty True]
    a b c
  show ?thesis by blast
qed

text \<open>
  Claim C6 as stated fails with a writer that creates the file, writes a part of it and
  raises: the run fails and the partial file is at the output path, where there was none.
\<close>

theorem encode_failure_counterexample:
  "\<not> fst (process_audio failing_writer_env (default_task ''a.wav'') True Map.empty) \<and>
   Map.empty (output_path (default_task ''a.wav'')) = (None :: bytes option) \<and>
   snd (snd (process_audio failing_writer_env (default_task ''a.wav'') True Map.empty))
     (output_path (default_task ''a.wav'')) = Some ''RI''"
  by code_simp

text \<open>
  Claim C7 on the input \<open>talk.m4a\<close>: the output format is \<open>m4a\<close>, the save stage takes
  the direct branch and calls \<open>sf.write\<close> on \<open>talk_cleaned.m4a\<close> with the raw samples;
  only mp3 takes the branch that transcodes from an in-memory WAV buffer.
\<close>

theorem encode_m4a_written_directly:
  "output_format (default_task ''talk.m4a'') = ''m4a'' \<and>
   encode_route_of (default_task ''talk.m4a'') = Direct_write \<and>
   save_audio e (default_task ''talk.m4a'') y sr fs = sf_write e ''talk_cleaned.m4a'' y sr fs \<and>
   encode_route_of (default_task ''talk.mp3'') = Transcode_from_wav_buffer"
proof -
  have a: "output_format (default_task ''talk.m4a'') = ''m4a''"
    and b: "encode_route_of (default_task ''talk.m4a'') = Direct_write"
    and c: "output_path (default_task ''talk.m4a'') = ''talk_cleaned.m4a''"
    and d: "encode_route_of (default_task ''talk.mp3'') = Transcode_from_wav_buffer"
    by code_simp+
  from a b c d show ?thesis by (simp add: save_audio_def)
qed

section \<open>Cancellation\<close>

text \<open>
  Claim C2, as the code has it.  When \<open>stop()\<close> has run before the check that follows the
  pipeline, whatever the stage boundary at which it ran, the thread emits the progress
  events of the whole pipeline followed by the terminal event \<open>(False, Task cancelled)\<close>,
  never a success event; the progress events and the files are those of the run that was
  not cancelled, and the thread ends not running.
\<close>

theorem run_cancelled:
  "fst (run e th (Some k) fs) =
     map (progress_updated (name (task th))) (fst (snd (process_audio e (task th) True fs))) @
     [task_completed (name (task th)) False ''Task cancelled''] \<and>
   butlast (fst (run e th (Some k) fs)) = butlast (fst (run e th None fs)) \<and>
   snd (snd (run e th (Some k) fs)) = snd (snd (process_audio e (task th) True fs)) \<and>
   snd (snd (run e th (Some k) fs)) = snd (snd (run e th None fs)) \<and>
   \<not> is_running (fst (snd (run e th (Some k) fs)))"
  by (simp add: run_def stop_def Let_def split: prod.splits)

text \<open>
  Claim C2 as stated fails: with \<open>stop()\<close> run after the first checkpoint, the stages
  after it still run (30, 60, 80 and 100 are reported) and the output file is written
  where there was none.
\<close>

theorem run_cancelled_counterexample:
  "fst (run demo_env demo_thread (Some 1) Map.empty) =
     [progress_updated ''a'' 10, progress_updated ''a'' 30, progress_updated ''a'' 60,
      progress_updated ''a'' 80, progress_updated ''a'' 100,
      task_completed ''a'' False ''Task cancelled''] \<and>
   Map.empty (output_path (task demo_thread)) = (None :: bytes option) \<and>
   snd (snd (run demo_env demo_thread (Some 1) Map.empty)) (output_path (task demo_thread)) =
     Some ''RIFF''"
  by code_simp

section \<open>The task registry\<close>

text \<open>
  Claim C5, as the code has it.  Adding a task from an accepted dialog with a non-empty
  input path never fails: the registry maps the name of the task to the new descriptor
  with a fresh task item, whether or not the name was registered before, every other
  entry and the running threads are unchanged, one widget is appended to the layout, and
  the entry is idle when no thread runs under that name.  A rejected dialog or an empty
  input path leaves the window unchanged.
\<close>

theorem add_task_registers:
  "(cfg_input_path c \<noteq> [] \<longrightarrow>
      tasks (add_task w (Accepted c)) =
        (tasks w)(name (task_of_configuration c) \<mapsto>
          (task_of_configuration c, TaskItem_init (name (task_of_configuration c)))) \<and>
      processing_threads (add_task w (Accepted c)) = processing_threads w \<and>
      task_layout (add_task w (Accepted c)) =
        task_layout w @ [TaskItem_init (name (task_of_configuration c))] \<and>
      (processing_threads w (name (task_of_configuration c)) = None \<longrightarrow>
         idle (add_task w (Accepted c)) (name (task_of_configuration c)))) \<and>
   (cfg_input_path c = [] \<longrightarrow> add_task w (Accepted c) = w) \<and>
   add_task w Rejected = w"
  by (simp add: add_task_def Let_def idle_def TaskItem_init_def)

theorem add_task_registers_witness:
  "cfg_input_path (demo_configuration ''a.wav'' LIGHT) \<noteq> [] \<and>
   processing_threads empty_window (name (task_of_configuration (demo_configuration ''a.wav'' LIGHT))) = None \<and>
   name (task_of_configuration (demo_configuration ''a.wav'' LIGHT)) = ''a'' \<and>
   idle (add_task empty_window (Accepted (demo_configuration ''a.wav'' LIGHT))) ''a''"
proof -
  have a: "cfg_input_path (demo_configuration ''a.wav'' LIGHT) \<noteq> []"
    and b: "processing_threads empty_window
              (name (task_of_configuration (demo_configuration ''a.wav'' LIGHT))) = None"
    and n: "name (task_of_configuration (demo_configuration ''a.wav'' LIGHT)) = ''a''"
    by code_simp+
  from add_task_registers [of "demo_configuration ''a.wav'' LIGHT" empty_window] a b
  have "idle (add_task empty_window (Accepted (demo_configuration ''a.wav'' LIGHT)))
          (name (task_of_configuration (demo_configuration ''a.wav'' LIGHT)))" by blast
  with a b n show ?thesis by simp
qed

text \<open>
  Claim C5 as stated fails: after \<open>a.wav\<close> is registered under the name \<open>a\<close>, adding
  \<open>b/a.mp3\<close>, whose name is \<open>a\<close> as well, is accepted and replaces the descriptor.
\<close>

theorem add_task_duplicate_counterexample:
  "map_option (noise_reduction_level \<circ> fst)
     (tasks (add_task empty_window (Accepted (demo_configuration ''a.wav'' LIGHT))) ''a'') =
     Some LIGHT \<and>
   name (task_of_configuration (demo_configuration ''b/a.mp3'' STRONG)) = ''a'' \<and>
   map_option (noise_reduction_level \<circ> fst)
     (tasks (add_task (add_task empty_window (Accepted (demo_configuration ''a.wav'' LIGHT)))
        (Accepted (demo_configuration ''b/a.mp3'' STRONG))) ''a'') = Some STRONG \<and>
   map_option (input_path \<circ> fst)
     (tasks (add_task (add_task empty_window (Accepted (demo_configuration ''a.wav'' LIGHT)))
        (Accepted (demo_configuration ''b/a.mp3'' STRONG))) ''a'') = Some ''b/a.mp3''"
  by code_simp

end
